theory Spec2Isabelle
  imports Complex_Main
begin

section \<open>The network layout hook (packages/network/src/hooks.ts)\<close>

text \<open>
  The hook \<open>useNetwork\<close> copies the caller's nodes and links, hands the copies to the
  d3-force simulation, stores the mutated copies in React state and derives styled
  records from that state on every render. The embedding follows the TypeScript
  line by line. JavaScript objects live in an explicit store, because the library
  mutates the copies in place and the styling step builds new objects from them.
\<close>

subsection \<open>JavaScript values, objects and the store\<close>

text \<open>
  A JavaScript value is a primitive, a reference to an object of the store, or a
  reference to a function supplied by the caller. Numbers are idealised as reals
  (no NaN, no infinities). Strict equality \<open>===\<close> is HOL equality on this type.
\<close>

datatype jsval =
    JUndefined
  | JNull
  | JBool bool
  | JNum real
  | JStr string
  | JRef nat
  | JFun nat

type_synonym obj = "string \<rightharpoonup> jsval"

type_synonym heap = "obj list"

datatype error = TypeError | Thrown string

definition deref :: "heap \<Rightarrow> nat \<Rightarrow> obj" where
  "deref h a = (if a < length h then h ! a else Map.empty)"

text \<open>Reading a property that the object does not own gives \<open>undefined\<close>.\<close>

definition get_prop :: "obj \<Rightarrow> string \<Rightarrow> jsval" where
  "get_prop ob k = (case ob k of None \<Rightarrow> JUndefined | Some v \<Rightarrow> v)"

text \<open>An object literal creates a new object at the next free address.\<close>

definition alloc :: "heap \<Rightarrow> obj \<Rightarrow> heap \<times> nat" where
  "alloc h ob = (h @ [ob], length h)"

text \<open>The assignment \<open>o.k = v\<close> on the object at address \<open>a\<close>.\<close>

definition assign :: "heap \<Rightarrow> nat \<Rightarrow> string \<Rightarrow> jsval \<Rightarrow> heap" where
  "assign h a k v = (if a < length h then h[a := (h ! a)(k \<mapsto> v)] else h)"

text \<open>
  The member access \<open>v.k\<close>: a TypeError on \<open>undefined\<close> and \<open>null\<close>, a lookup in the
  store on an object reference. The hook only reads the key \<open>id\<close> this way, which
  no primitive and no plain function owns, so those give \<open>undefined\<close>.
\<close>

definition get_member :: "heap \<Rightarrow> jsval \<Rightarrow> string \<Rightarrow> error + jsval" where
  "get_member h v k =
     (case v of
        JUndefined \<Rightarrow> Inl TypeError
      | JNull \<Rightarrow> Inl TypeError
      | JRef a \<Rightarrow> Inr (get_prop (deref h a) k)
      | _ \<Rightarrow> Inr JUndefined)"

text \<open>
  \<open>Array.prototype.map\<close> with a callback that returns a fresh object literal: the
  callback reads the store as it is when it is called, and its result is allocated.
\<close>

fun map_alloc :: "(heap \<Rightarrow> nat \<Rightarrow> obj) \<Rightarrow> heap \<Rightarrow> nat list \<Rightarrow> heap \<times> nat list" where
  "map_alloc f h [] = (h, [])"
| "map_alloc f h (a # as) =
     (let (h1, b) = alloc h (f h a);
          (h2, bs) = map_alloc f h1 as
      in (h2, b # bs))"

text \<open>Tests on values: \<open>typeof v === 'function'\<close>, lodash \<open>isNumber\<close> and \<open>isString\<close>.\<close>

definition is_function :: "jsval \<Rightarrow> bool" where
  "is_function v = (case v of JFun _ \<Rightarrow> True | _ \<Rightarrow> False)"

definition isNumber :: "jsval \<Rightarrow> bool" where
  "isNumber v = (case v of JNum _ \<Rightarrow> True | _ \<Rightarrow> False)"

definition isString :: "jsval \<Rightarrow> bool" where
  "isString v = (case v of JStr _ \<Rightarrow> True | _ \<Rightarrow> False)"

subsection \<open>The force model\<close>

text \<open>
  The d3-force builders are configuration holders: each record keeps what the hook
  passes to the builder's setters. \<open>getLinkDistance\<close> is the caller's function, the
  caller's number, the closure \<open>link => get(link, linkDistance)\<close> over a field path,
  or still \<open>undefined\<close> when none of the three tests of \<open>computeForces\<close> holds.
\<close>

datatype distance_accessor =
    DistFunction nat
  | DistNumber real
  | DistGet string
  | DistUndefined

record force_link =
  fl_distance :: distance_accessor
  fl_links :: "nat list"

record force_many_body =
  fm_strength :: real
  fm_distanceMin :: real
  fm_distanceMax :: real

record force_center =
  fc_x :: real
  fc_y :: real

record forces =
  linkForce :: force_link
  chargeForce :: force_many_body
  centerForce :: force_center

definition getLinkDistance :: "jsval \<Rightarrow> distance_accessor" where
  "getLinkDistance linkDistance =
     (case linkDistance of
        JFun f \<Rightarrow> DistFunction f
      | JNum n \<Rightarrow> DistNumber n
      | JStr path \<Rightarrow> DistGet path
      | _ \<Rightarrow> DistUndefined)"

definition computeForces :: "jsval \<Rightarrow> real \<Rightarrow> real \<Rightarrow> real \<Rightarrow> real \<times> real \<Rightarrow> forces" where
  "computeForces linkDistance repulsivity distanceMin distanceMax center =
     \<lparr> linkForce = \<lparr> fl_distance = getLinkDistance linkDistance, fl_links = [] \<rparr>,
       chargeForce = \<lparr> fm_strength = - repulsivity,
                       fm_distanceMin = distanceMin,
                       fm_distanceMax = distanceMax \<rparr>,
       centerForce = \<lparr> fc_x = fst center, fc_y = snd center \<rparr> \<rparr>"

subsection \<open>What the hook takes from outside this file\<close>

text \<open>
  \<open>commonDefaultProps\<close> comes from \<open>./defaults\<close>. The caller's functions are pure readers
  of the store (\<open>callFn f h v\<close> is the result of calling function \<open>f\<close> on \<open>v\<close>).
  \<open>toStr\<close> is the language's string conversion of a value that is not a string.
  \<open>d3_simulation\<close> stands for building the simulation over the node copies, attaching
  the three forces and ticking it: it throws, or mutates objects of the store, given
  as the list of property writes it performs. \<open>useTheme\<close> and \<open>useInheritedColor\<close> are
  the hooks of the core and colors packages.
\<close>

record common_default_props =
  default_linkDistance :: jsval
  default_repulsivity :: real
  default_distanceMin :: real
  default_distanceMax :: real
  default_iterations :: real
  default_nodeColor :: jsval
  default_nodeBorderWidth :: jsval
  default_nodeBorderColor :: jsval
  default_linkThickness :: jsval
  default_linkColor :: jsval

record externals =
  commonDefaultProps :: common_default_props
  callFn :: "nat \<Rightarrow> heap \<Rightarrow> jsval \<Rightarrow> jsval"
  toStr :: "jsval \<Rightarrow> string"
  d3_simulation :: "heap \<Rightarrow> nat list \<Rightarrow> forces \<Rightarrow> real \<Rightarrow> error + (nat \<times> string \<times> jsval) list"
  useTheme :: jsval
  useInheritedColor :: "jsval \<Rightarrow> jsval \<Rightarrow> heap \<Rightarrow> jsval \<Rightarrow> jsval"

subsection \<open>Properties and state of the hook\<close>

text \<open>
  An optional property that is \<open>undefined\<close> takes its default: \<open>JUndefined\<close> for the
  accessor-valued properties, \<open>None\<close> for the numeric ones.
\<close>

record props =
  center :: "real \<times> real"
  nodes :: "nat list"
  links :: "nat list"
  linkDistance :: jsval
  repulsivity :: "real option"
  distanceMin :: "real option"
  distanceMax :: "real option"
  iterations :: "real option"
  nodeColor :: jsval
  nodeBorderWidth :: jsval
  nodeBorderColor :: jsval
  linkThickness :: jsval
  linkColor :: jsval

definition default_to :: "jsval \<Rightarrow> jsval \<Rightarrow> jsval" where
  "default_to d v = (if v = JUndefined then d else v)"

definition default_num :: "real \<Rightarrow> real option \<Rightarrow> real" where
  "default_num d v = (case v of None \<Rightarrow> d | Some r \<Rightarrow> r)"

record hook_state =
  currentNodes :: "nat list option"
  currentLinks :: "nat list option"

text \<open>\<open>useState(null)\<close> twice.\<close>

definition initial_state :: hook_state where
  "initial_state = \<lparr> currentNodes = None, currentLinks = None \<rparr>"

subsection \<open>Accessor normalisation\<close>

definition useNodeColor :: "externals \<Rightarrow> jsval \<Rightarrow> heap \<Rightarrow> jsval \<Rightarrow> jsval" where
  "useNodeColor ext color =
     (case color of JFun f \<Rightarrow> callFn ext f | _ \<Rightarrow> (\<lambda>h node. color))"

definition useLinkThickness :: "externals \<Rightarrow> jsval \<Rightarrow> heap \<Rightarrow> jsval \<Rightarrow> jsval" where
  "useLinkThickness ext thickness =
     (case thickness of JFun f \<Rightarrow> callFn ext f | _ \<Rightarrow> (\<lambda>h link. thickness))"

subsection \<open>The effect: one run of the layout\<close>

text \<open>A template literal part: a string is itself, anything else is converted.\<close>

definition template_part :: "externals \<Rightarrow> jsval \<Rightarrow> string" where
  "template_part ext v = (case v of JStr s \<Rightarrow> s | _ \<Rightarrow> toStr ext v)"

text \<open>\<open>node => ({ ...node })\<close>\<close>

definition node_copy :: "heap \<Rightarrow> nat \<Rightarrow> obj" where
  "node_copy h node = deref h node"

text \<open>\<open>link => ({ id: `${link.source}.${link.target}`, ...link })\<close>: the spread comes last.\<close>

definition derived_id :: "externals \<Rightarrow> obj \<Rightarrow> jsval" where
  "derived_id ext link =
     JStr (template_part ext (get_prop link ''source'') @ ''.'' @
           template_part ext (get_prop link ''target''))"

definition link_copy :: "externals \<Rightarrow> heap \<Rightarrow> nat \<Rightarrow> obj" where
  "link_copy ext h link = [''id'' \<mapsto> derived_id ext (deref h link)] ++ deref h link"

text \<open>The writes of the simulation, applied in order.\<close>

definition apply_writes :: "(nat \<times> string \<times> jsval) list \<Rightarrow> heap \<Rightarrow> heap" where
  "apply_writes ws h = fold (\<lambda>(a, k, v) h'. assign h' a k v) ws h"

text \<open>
  \<open>currentNodes.find(n => n.id === link.source.id)\<close> with the endpoint key \<open>k\<close>: the
  callback is evaluated per element, so \<open>link.source.id\<close> can only throw when the
  array is not empty.
\<close>

fun find_previous :: "heap \<Rightarrow> nat \<Rightarrow> string \<Rightarrow> nat list \<Rightarrow> error + jsval" where
  "find_previous h link k [] = Inr JUndefined"
| "find_previous h link k (n # ns) =
     (case get_member h (get_prop (deref h link) k) ''id'' of
        Inl e \<Rightarrow> Inl e
      | Inr i \<Rightarrow> if get_prop (deref h n) ''id'' = i then Inr (JRef n)
                else find_previous h link k ns)"

definition previous_of :: "heap \<Rightarrow> nat list option \<Rightarrow> nat \<Rightarrow> string \<Rightarrow> error + jsval" where
  "previous_of h cur link k =
     (case cur of None \<Rightarrow> Inr JUndefined | Some ns \<Rightarrow> find_previous h link k ns)"

text \<open>The callback of \<open>linksCopy.map\<close>: two assignments on the link, which is returned.\<close>

definition set_previous :: "nat list option \<Rightarrow> heap \<Rightarrow> nat \<Rightarrow> error + heap" where
  "set_previous cur h link =
     (case previous_of h cur link ''source'' of
        Inl e \<Rightarrow> Inl e
      | Inr ps \<Rightarrow>
          (let h1 = assign h link ''previousSource'' ps
           in case previous_of h1 cur link ''target'' of
                Inl e \<Rightarrow> Inl e
              | Inr pt \<Rightarrow> Inr (assign h1 link ''previousTarget'' pt)))"

fun set_previous_all :: "nat list option \<Rightarrow> heap \<Rightarrow> nat list \<Rightarrow> error + heap" where
  "set_previous_all cur h [] = Inr h"
| "set_previous_all cur h (link # ls) =
     (case set_previous cur h link of
        Inl e \<Rightarrow> Inl e
      | Inr h1 \<Rightarrow> set_previous_all cur h1 ls)"

text \<open>
  The body of \<open>useEffect\<close>, in its three parts: the forces built from the properties,
  the copies of the caller's nodes and links, and the run itself. \<open>st\<close> is the state
  the effect closed over; the result is the state after \<open>setCurrentNodes\<close> and
  \<open>setCurrentLinks\<close>, or the exception that left the effect (React then unmounts
  the component, so no state outlives it).
\<close>

definition effect_forces :: "externals \<Rightarrow> props \<Rightarrow> forces" where
  "effect_forces ext p =
     (let d = commonDefaultProps ext
      in computeForces (default_to (default_linkDistance d) (linkDistance p))
           (default_num (default_repulsivity d) (repulsivity p))
           (default_num (default_distanceMin d) (distanceMin p))
           (default_num (default_distanceMax d) (distanceMax p))
           (fst (center p), snd (center p)))"

definition effect_copies :: "externals \<Rightarrow> props \<Rightarrow> heap \<Rightarrow> heap \<times> nat list \<times> nat list" where
  "effect_copies ext p h =
     (let (h1, nodesCopy) = map_alloc node_copy h (nodes p);
          (h2, linksCopy) = map_alloc (link_copy ext) h1 (links p)
      in (h2, nodesCopy, linksCopy))"

definition useNetwork_effect ::
  "externals \<Rightarrow> props \<Rightarrow> hook_state \<Rightarrow> heap \<Rightarrow> error + (hook_state \<times> heap)" where
  "useNetwork_effect ext p st h =
     (let fs = effect_forces ext p;
          (h2, nodesCopy, linksCopy) = effect_copies ext p h
      in case d3_simulation ext h2 nodesCopy
                (fs\<lparr> linkForce := (linkForce fs)\<lparr> fl_links := linksCopy \<rparr> \<rparr>)
                (default_num (default_iterations (commonDefaultProps ext)) (iterations p)) of
           Inl e \<Rightarrow> Inl e
         | Inr ws \<Rightarrow>
             (case set_previous_all (currentNodes st) (apply_writes ws h2) linksCopy of
                Inl e \<Rightarrow> Inl e
              | Inr h4 \<Rightarrow>
                  Inr (\<lparr> currentNodes = Some nodesCopy, currentLinks = Some linksCopy \<rparr>, h4)))"

subsection \<open>The render: styling the state\<close>

text \<open>
  The accessors the render resolves (\<open>getNodeColor\<close>, \<open>getNodeBorderColor\<close>,
  \<open>getLinkThickness\<close>, \<open>getLinkColor\<close>) and the border width, which is used as passed.
\<close>

definition getNodeColor :: "externals \<Rightarrow> props \<Rightarrow> heap \<Rightarrow> jsval \<Rightarrow> jsval" where
  "getNodeColor ext p =
     useNodeColor ext (default_to (default_nodeColor (commonDefaultProps ext)) (nodeColor p))"

definition resolved_nodeBorderWidth :: "externals \<Rightarrow> props \<Rightarrow> jsval" where
  "resolved_nodeBorderWidth ext p =
     default_to (default_nodeBorderWidth (commonDefaultProps ext)) (nodeBorderWidth p)"

definition getNodeBorderColor :: "externals \<Rightarrow> props \<Rightarrow> heap \<Rightarrow> jsval \<Rightarrow> jsval" where
  "getNodeBorderColor ext p =
     useInheritedColor ext
       (default_to (default_nodeBorderColor (commonDefaultProps ext)) (nodeBorderColor p))
       (useTheme ext)"

definition getLinkThickness :: "externals \<Rightarrow> props \<Rightarrow> heap \<Rightarrow> jsval \<Rightarrow> jsval" where
  "getLinkThickness ext p =
     useLinkThickness ext
       (default_to (default_linkThickness (commonDefaultProps ext)) (linkThickness p))"

definition getLinkColor :: "externals \<Rightarrow> props \<Rightarrow> heap \<Rightarrow> jsval \<Rightarrow> jsval" where
  "getLinkColor ext p =
     useInheritedColor ext
       (default_to (default_linkColor (commonDefaultProps ext)) (linkColor p))
       (useTheme ext)"

text \<open>The two object literals: the spread first, the style fields after it.\<close>

definition styled_node :: "externals \<Rightarrow> props \<Rightarrow> heap \<Rightarrow> nat \<Rightarrow> obj" where
  "styled_node ext p h node =
     (deref h node)
       (''color'' \<mapsto> getNodeColor ext p h (JRef node),
        ''borderWidth'' \<mapsto> resolved_nodeBorderWidth ext p,
        ''borderColor'' \<mapsto> getNodeBorderColor ext p h (JRef node))"

definition styled_link :: "externals \<Rightarrow> props \<Rightarrow> heap \<Rightarrow> nat \<Rightarrow> obj" where
  "styled_link ext p h link =
     (deref h link)
       (''thickness'' \<mapsto> getLinkThickness ext p h (JRef link),
        ''color'' \<mapsto> getLinkColor ext p h (JRef link))"

definition enhancedNodes ::
  "externals \<Rightarrow> props \<Rightarrow> hook_state \<Rightarrow> heap \<Rightarrow> heap \<times> nat list option" where
  "enhancedNodes ext p st h =
     (case currentNodes st of
        None \<Rightarrow> (h, None)
      | Some ns \<Rightarrow> (let (h', res) = map_alloc (styled_node ext p) h ns in (h', Some res)))"

definition enhancedLinks ::
  "externals \<Rightarrow> props \<Rightarrow> hook_state \<Rightarrow> heap \<Rightarrow> heap \<times> nat list option" where
  "enhancedLinks ext p st h =
     (case currentLinks st of
        None \<Rightarrow> (h, None)
      | Some ls \<Rightarrow> (let (h', res) = map_alloc (styled_link ext p) h ls in (h', Some res)))"

text \<open>
  What one call of the hook returns: \<open>[enhancedNodes, enhancedLinks]\<close>. The two
  memos are computed afresh here; \<open>useMemo\<close> only spares the recomputation when its
  dependencies are unchanged.
\<close>

definition useNetwork ::
  "externals \<Rightarrow> props \<Rightarrow> hook_state \<Rightarrow> heap \<Rightarrow> (nat list option \<times> nat list option) \<times> heap" where
  "useNetwork ext p st h =
     (let (h1, ens) = enhancedNodes ext p st h;
          (h2, els) = enhancedLinks ext p st h1
      in ((ens, els), h2))"

subsection \<open>The previous-frame reference, as the specification words it\<close>

text \<open>
  The id of the node a link end resolved to (\<open>link.source.id\<close> where that is an
  object), and the first node of a prior node list that carries this id.
\<close>

definition endpoint_id :: "heap \<Rightarrow> nat \<Rightarrow> string \<Rightarrow> jsval" where
  "endpoint_id h link k =
     (case get_prop (deref h link) k of
        JRef a \<Rightarrow> get_prop (deref h a) ''id''
      | _ \<Rightarrow> JUndefined)"

definition previous_node :: "heap \<Rightarrow> nat list \<Rightarrow> nat \<Rightarrow> string \<Rightarrow> jsval" where
  "previous_node h ns link k =
     (case find (\<lambda>n. get_prop (deref h n) ''id'' = endpoint_id h link k) ns of
        None \<Rightarrow> JUndefined
      | Some n \<Rightarrow> JRef n)"

text \<open>What a run must leave in \<open>previousSource\<close> and \<open>previousTarget\<close>.\<close>

definition expected_previous :: "heap \<Rightarrow> nat list option \<Rightarrow> nat \<Rightarrow> string \<Rightarrow> jsval" where
  "expected_previous h cur link k =
     (case cur of None \<Rightarrow> JUndefined | Some ns \<Rightarrow> previous_node h ns link k)"

subsection \<open>A small instance\<close>

text \<open>
  Two nodes \<open>a\<close> and \<open>b\<close> with a \<open>fill\<close> field and one link between them. The stand-in
  for the simulation places every node at the origin and resolves each link end to
  the node copy with that id; the caller's function number 0 reads \<open>fill\<close>.
\<close>

definition stub_resolve :: "heap \<Rightarrow> nat list \<Rightarrow> jsval \<Rightarrow> jsval" where
  "stub_resolve h ns v =
     (case find (\<lambda>n. get_prop (deref h n) ''id'' = v) ns of
        None \<Rightarrow> v
      | Some n \<Rightarrow> JRef n)"

definition stub_simulation ::
  "heap \<Rightarrow> nat list \<Rightarrow> forces \<Rightarrow> real \<Rightarrow> error + (nat \<times> string \<times> jsval) list" where
  "stub_simulation h ns fs n =
     Inr (concat (map (\<lambda>a. [(a, ''x'', JNum 0), (a, ''y'', JNum 0)]) ns) @
          concat (map (\<lambda>l. [(l, ''source'', stub_resolve h ns (get_prop (deref h l) ''source'')),
                             (l, ''target'', stub_resolve h ns (get_prop (deref h l) ''target''))])
                      (fl_links (linkForce fs))))"

definition example_defaults :: common_default_props where
  "example_defaults =
     \<lparr> default_linkDistance = JNum 30,
       default_repulsivity = 10,
       default_distanceMin = 1,
       default_distanceMax = 999,
       default_iterations = 90,
       default_nodeColor = JStr ''black'',
       default_nodeBorderWidth = JNum 0,
       default_nodeBorderColor = JStr ''black'',
       default_linkThickness = JNum 1,
       default_linkColor = JStr ''grey'' \<rparr>"

definition example_externals :: externals where
  "example_externals =
     \<lparr> commonDefaultProps = example_defaults,
       callFn = (\<lambda>f h v. case v of JRef a \<Rightarrow> get_prop (deref h a) ''fill'' | _ \<Rightarrow> JUndefined),
       toStr = (\<lambda>v. ''?''),
       d3_simulation = stub_simulation,
       useTheme = JNull,
       useInheritedColor = (\<lambda>config theme h v. config) \<rparr>"

definition example_heap :: heap where
  "example_heap =
     [ [''id'' \<mapsto> JStr ''a'', ''fill'' \<mapsto> JStr ''red''],
       [''id'' \<mapsto> JStr ''b'', ''fill'' \<mapsto> JStr ''blue''],
       [''source'' \<mapsto> JStr ''a'', ''target'' \<mapsto> JStr ''b''] ]"

text \<open>The same store, with a link that brings an \<open>id\<close> of its own.\<close>

definition example_heap_own_id :: heap where
  "example_heap_own_id =
     [ [''id'' \<mapsto> JStr ''a'', ''fill'' \<mapsto> JStr ''red''],
       [''id'' \<mapsto> JStr ''b'', ''fill'' \<mapsto> JStr ''blue''],
       [''id'' \<mapsto> JStr ''first'', ''source'' \<mapsto> JStr ''a'', ''target'' \<mapsto> JStr ''b''] ]"

text \<open>A state as a prior run over the two nodes would have left it.\<close>

definition example_prior :: hook_state where
  "example_prior = \<lparr> currentNodes = Some [0, 1], currentLinks = None \<rparr>"

text \<open>The store and the state after a first run over the instance.\<close>

definition example_run_heap :: heap where
  "example_run_heap =
     [ [''id'' \<mapsto> JStr ''a'', ''fill'' \<mapsto> JStr ''red''],
       [''id'' \<mapsto> JStr ''b'', ''fill'' \<mapsto> JStr ''blue''],
       [''source'' \<mapsto> JStr ''a'', ''target'' \<mapsto> JStr ''b''],
       [''id'' \<mapsto> JStr ''a'', ''fill'' \<mapsto> JStr ''red'', ''x'' \<mapsto> JNum 0, ''y'' \<mapsto> JNum 0],
       [''id'' \<mapsto> JStr ''b'', ''fill'' \<mapsto> JStr ''blue'', ''x'' \<mapsto> JNum 0, ''y'' \<mapsto> JNum 0],
       [''id'' \<mapsto> JStr ''a.b'', ''source'' \<mapsto> JRef 3, ''target'' \<mapsto> JRef 4,
        ''previousSource'' \<mapsto> JUndefined, ''previousTarget'' \<mapsto> JUndefined] ]"

definition example_run_state :: hook_state where
  "example_run_state = \<lparr> currentNodes = Some [3, 4], currentLinks = Some [5] \<rparr>"

definition example_props :: props where
  "example_props =
     \<lparr> center = (0, 0),
       nodes = [0, 1],
       links = [2],
       linkDistance = JUndefined,
       repulsivity = None,
       distanceMin = None,
       distanceMax = None,
       iterations = None,
       nodeColor = JUndefined,
       nodeBorderWidth = JUndefined,
       nodeBorderColor = JUndefined,
       linkThickness = JUndefined,
       linkColor = JUndefined \<rparr>"

section \<open>Lemmas about the store\<close>

subsection \<open>Allocation by \<open>map\<close>\<close>

lemma map_alloc_snd: "snd (map_alloc f h xs) = [length h..<length h + length xs]"
proof (induction xs arbitrary: h)
  case Nil
  then show ?case by simp
next
  case (Cons x xs)
  have "snd (map_alloc f h (x # xs)) = length h # snd (map_alloc f (h @ [f h x]) xs)"
    by (simp add: alloc_def split: prod.splits)
  also have "\<dots> = length h # [Suc (length h)..<Suc (length h) + length xs]"
    by (simp add: Cons.IH)
  also have "\<dots> = [length h..<length h + length (x # xs)]"
    using upt_conv_Cons [of "length h" "length h + length (x # xs)"] by simp
  finally show ?case .
qed

lemma map_alloc_fst_Cons:
  "fst (map_alloc f h (x # xs)) = fst (map_alloc f (h @ [f h x]) xs)"
  by (simp add: alloc_def split: prod.splits)

lemma map_alloc_length: "length (fst (map_alloc f h xs)) = length h + length xs"
  by (induction xs arbitrary: h) (simp_all add: map_alloc_fst_Cons del: map_alloc.simps(2))

lemma map_alloc_take: "take (length h) (fst (map_alloc f h xs)) = h"
proof (induction xs arbitrary: h)
  case Nil
  then show ?case by simp
next
  case (Cons x xs)
  have "take (length h) (fst (map_alloc f (h @ [f h x]) xs)) =
        take (length h) (take (length (h @ [f h x])) (fst (map_alloc f (h @ [f h x]) xs)))"
    by (simp add: min_def)
  also have "\<dots> = take (length h) (h @ [f h x])"
    by (simp only: Cons.IH)
  finally show ?case by (simp add: map_alloc_fst_Cons del: map_alloc.simps(2))
qed

lemma map_alloc_old: "a < length h \<Longrightarrow> fst (map_alloc f h xs) ! a = h ! a"
  by (metis map_alloc_take nth_take)

lemma map_alloc_deref_old: "a < length h \<Longrightarrow> deref (fst (map_alloc f h xs)) a = deref h a"
  by (simp add: deref_def map_alloc_old map_alloc_length)

lemma map_alloc_new:
  "i < length xs \<Longrightarrow>
   fst (map_alloc f h xs) ! (length h + i) =
   f (take (length h + i) (fst (map_alloc f h xs))) (xs ! i)"
proof (induction xs arbitrary: h i)
  case Nil
  then show ?case by simp
next
  case (Cons x xs)
  let ?h1 = "h @ [f h x]"
  show ?case
  proof (cases i)
    case 0
    have "fst (map_alloc f ?h1 xs) ! length h = ?h1 ! length h"
      by (rule map_alloc_old) simp
    moreover have "take (length h) (fst (map_alloc f ?h1 xs)) = h"
      using map_alloc_take [of h f "x # xs"] by (simp add: map_alloc_fst_Cons del: map_alloc.simps(2))
    ultimately show ?thesis using 0 by (simp add: map_alloc_fst_Cons del: map_alloc.simps(2))
  next
    case (Suc j)
    with Cons.prems have "j < length xs" by simp
    from Cons.IH [OF this, of ?h1] show ?thesis
      using Suc by (simp add: map_alloc_fst_Cons del: map_alloc.simps(2))
  qed
qed

subsection \<open>Assignments and the search for the previous node\<close>

lemma length_assign: "length (assign h a k v) = length h"
  by (simp add: assign_def)

lemma deref_assign_other: "b \<noteq> a \<Longrightarrow> deref (assign h a k v) b = deref h b"
  by (simp add: assign_def deref_def)

lemma get_prop_assign_other_key:
  "k' \<noteq> k \<Longrightarrow> get_prop (deref (assign h a k v) b) k' = get_prop (deref h b) k'"
  by (simp add: assign_def deref_def get_prop_def nth_list_update)

lemma get_prop_assign_same:
  "a < length h \<Longrightarrow> get_prop (deref (assign h a k v) a) k = v"
  by (simp add: assign_def deref_def get_prop_def)

lemma length_apply_writes: "length (apply_writes ws h) = length h"
  unfolding apply_writes_def
  by (induction ws arbitrary: h) (simp_all add: length_assign split: prod.splits)

text \<open>Reads of ids and link ends decide the search; nothing else does.\<close>

lemma get_member_id_cong:
  assumes "\<And>a. get_prop (deref h' a) ''id'' = get_prop (deref h a) ''id''"
  shows "get_member h' v ''id'' = get_member h v ''id''"
  by (cases v) (simp_all add: get_member_def assms)

lemma find_previous_cong:
  assumes "\<And>a. get_prop (deref h' a) ''id'' = get_prop (deref h a) ''id''"
    and "get_prop (deref h' link) k = get_prop (deref h link) k"
  shows "find_previous h' link k ns = find_previous h link k ns"
  by (induction ns)
    (simp_all add: assms get_member_id_cong [of h' h, OF assms(1)] split: sum.splits)

lemma endpoint_id_cong:
  assumes "\<And>a. get_prop (deref h' a) ''id'' = get_prop (deref h a) ''id''"
    and "get_prop (deref h' link) k = get_prop (deref h link) k"
  shows "endpoint_id h' link k = endpoint_id h link k"
  by (simp add: endpoint_id_def assms split: jsval.splits)

lemma previous_node_cong:
  assumes "\<And>a. get_prop (deref h' a) ''id'' = get_prop (deref h a) ''id''"
    and "get_prop (deref h' link) k = get_prop (deref h link) k"
  shows "previous_node h' ns link k = previous_node h ns link k"
  by (simp add: previous_node_def assms endpoint_id_cong [of h' h link k, OF assms])

lemma get_member_endpoint_id:
  "get_member h (get_prop (deref h link) k) ''id'' = Inr i \<Longrightarrow> i = endpoint_id h link k"
  by (auto simp: get_member_def endpoint_id_def split: jsval.splits)

lemma find_previous_Inr:
  "find_previous h link k ns = Inr v \<Longrightarrow> v = previous_node h ns link k"
proof (induction ns)
  case Nil
  then show ?case by (simp add: previous_node_def)
next
  case (Cons n ns)
  from Cons.prems obtain i where i: "get_member h (get_prop (deref h link) k) ''id'' = Inr i"
    by (auto split: sum.splits)
  have e: "endpoint_id h link k = i" using get_member_endpoint_id [OF i] by simp
  show ?case
  proof (cases "get_prop (deref h n) ''id'' = i")
    case True
    with Cons.prems i e show ?thesis by (simp add: previous_node_def)
  next
    case False
    with Cons.prems i have "find_previous h link k ns = Inr v" by simp
    then have "v = previous_node h ns link k" by (rule Cons.IH)
    with False e show ?thesis by (simp add: previous_node_def)
  qed
qed

lemma previous_of_Inr:
  "previous_of h cur link k = Inr v \<Longrightarrow> v = expected_previous h cur link k"
  by (cases cur) (simp_all add: previous_of_def expected_previous_def find_previous_Inr)

lemma expected_previous_cong:
  assumes "\<And>a. get_prop (deref h' a) ''id'' = get_prop (deref h a) ''id''"
    and "get_prop (deref h' link) k = get_prop (deref h link) k"
  shows "expected_previous h' cur link k = expected_previous h cur link k"
  by (cases cur) (simp_all add: expected_previous_def previous_node_cong [of h' h link k, OF assms])

text \<open>One link: what the two assignments leave behind.\<close>

lemma set_previous_frame:
  assumes "set_previous cur h link = Inr h'"
  shows "length h' = length h"
    and "b \<noteq> link \<Longrightarrow> deref h' b = deref h b"
    and "k \<noteq> ''previousSource'' \<Longrightarrow> k \<noteq> ''previousTarget'' \<Longrightarrow>
         get_prop (deref h' b) k = get_prop (deref h b) k"
  using assms
  by (auto simp: set_previous_def Let_def length_assign deref_assign_other
      get_prop_assign_other_key split: sum.splits)

lemma set_previous_result:
  assumes "set_previous cur h link = Inr h'" and "link < length h"
  shows "get_prop (deref h' link) ''previousSource'' = expected_previous h' cur link ''source''"
    and "get_prop (deref h' link) ''previousTarget'' = expected_previous h' cur link ''target''"
proof -
  from assms(1) obtain ps pt where
    ps: "previous_of h cur link ''source'' = Inr ps" and
    pt: "previous_of (assign h link ''previousSource'' ps) cur link ''target'' = Inr pt" and
    h': "h' = assign (assign h link ''previousSource'' ps) link ''previousTarget'' pt"
    by (auto simp: set_previous_def Let_def split: sum.splits)
  let ?h1 = "assign h link ''previousSource'' ps"
  have ids: "\<And>a. get_prop (deref h' a) ''id'' = get_prop (deref h a) ''id''"
    using set_previous_frame(3) [OF assms(1)] by simp
  have src: "get_prop (deref h' link) ''source'' = get_prop (deref h link) ''source''"
    using set_previous_frame(3) [OF assms(1)] by simp
  have ids1: "\<And>a. get_prop (deref h' a) ''id'' = get_prop (deref ?h1 a) ''id''"
    by (simp add: h' get_prop_assign_other_key)
  have tgt1: "get_prop (deref h' link) ''target'' = get_prop (deref ?h1 link) ''target''"
    by (simp add: h' get_prop_assign_other_key)
  have "get_prop (deref h' link) ''previousSource'' = ps"
    using assms(2) by (simp add: h' get_prop_assign_other_key get_prop_assign_same)
  also have "ps = expected_previous h cur link ''source''"
    using ps by (rule previous_of_Inr)
  also have "\<dots> = expected_previous h' cur link ''source''"
    using expected_previous_cong [of h' h link "''source''" cur, OF ids src] by simp
  finally show "get_prop (deref h' link) ''previousSource'' = expected_previous h' cur link ''source''" .
  have "get_prop (deref h' link) ''previousTarget'' = pt"
    using assms(2) by (simp add: h' get_prop_assign_same length_assign)
  also have "pt = expected_previous ?h1 cur link ''target''"
    using pt by (rule previous_of_Inr)
  also have "\<dots> = expected_previous h' cur link ''target''"
    using expected_previous_cong [of h' ?h1 link "''target''" cur, OF ids1 tgt1] by simp
  finally show "get_prop (deref h' link) ''previousTarget'' = expected_previous h' cur link ''target''" .
qed

lemma set_previous_all_frame:
  assumes "set_previous_all cur h ls = Inr h'"
  shows "length h' = length h"
    and "b \<notin> set ls \<Longrightarrow> deref h' b = deref h b"
    and "k \<noteq> ''previousSource'' \<Longrightarrow> k \<noteq> ''previousTarget'' \<Longrightarrow>
         get_prop (deref h' b) k = get_prop (deref h b) k"
  using assms
proof (induction ls arbitrary: h)
  case Nil
  { case 1 then show ?case by simp }
  { case 2 then show ?case by simp }
  { case 3 then show ?case by simp }
next
  case (Cons l ls)
  { case 1
    then obtain h1 where a: "set_previous cur h l = Inr h1" and b: "set_previous_all cur h1 ls = Inr h'"
      by (auto split: sum.splits)
    show ?case using Cons.IH(1) [OF b] set_previous_frame(1) [OF a] by simp }
  { case 2
    then obtain h1 where a: "set_previous cur h l = Inr h1" and b: "set_previous_all cur h1 ls = Inr h'"
      by (auto split: sum.splits)
    from 2 have "b \<notin> set ls" "b \<noteq> l" by auto
    then show ?case using Cons.IH(2) [OF _ b] set_previous_frame(2) [OF a] by simp }
  { case 3
    then obtain h1 where a: "set_previous cur h l = Inr h1" and b: "set_previous_all cur h1 ls = Inr h'"
      by (auto split: sum.splits)
    show ?case using Cons.IH(3) [OF 3(1) 3(2) b] set_previous_frame(3) [OF a 3(1) 3(2)] by simp }
qed

lemma set_previous_all_result:
  assumes "set_previous_all cur h ls = Inr h'" and "distinct ls" and "\<forall>l\<in>set ls. l < length h"
    and "link \<in> set ls"
  shows "get_prop (deref h' link) ''previousSource'' = expected_previous h' cur link ''source'' \<and>
         get_prop (deref h' link) ''previousTarget'' = expected_previous h' cur link ''target''"
  using assms
proof (induction ls arbitrary: h)
  case Nil
  then show ?case by simp
next
  case (Cons l ls)
  from Cons.prems(1) obtain h1 where
    a: "set_previous cur h l = Inr h1" and b: "set_previous_all cur h1 ls = Inr h'"
    by (auto split: sum.splits)
  have len: "length h1 = length h" by (rule set_previous_frame(1) [OF a])
  show ?case
  proof (cases "link \<in> set ls")
    case True
    from Cons.prems(2,3) have "distinct ls" "\<forall>l\<in>set ls. l < length h1" by (simp_all add: len)
    from Cons.IH [OF b this True] show ?thesis .
  next
    case False
    with Cons.prems(4) have eq: "link = l" by simp
    from Cons.prems(3) have lt: "l < length h" by simp
    have same: "deref h' l = deref h1 l"
      using set_previous_all_frame(2) [OF b] False eq by simp
    have ids: "\<And>a. get_prop (deref h' a) ''id'' = get_prop (deref h1 a) ''id''"
      using set_previous_all_frame(3) [OF b] by simp
    have "expected_previous h' cur l k = expected_previous h1 cur l k" for k
      using expected_previous_cong [of h' h1 l k cur] ids same by simp
    then show ?thesis
      using set_previous_result [OF a lt] same eq by simp
  qed
qed

subsection \<open>The render\<close>

lemma useNetwork_unfold:
  "useNetwork ext p st h =
     ((snd (enhancedNodes ext p st h),
       snd (enhancedLinks ext p st (fst (enhancedNodes ext p st h)))),
      fst (enhancedLinks ext p st (fst (enhancedNodes ext p st h))))"
  by (simp add: useNetwork_def split: prod.splits)

lemma enhancedNodes_Some:
  "currentNodes st = Some ns \<Longrightarrow>
   enhancedNodes ext p st h =
     (fst (map_alloc (styled_node ext p) h ns), Some [length h..<length h + length ns])"
  by (simp add: enhancedNodes_def case_prod_beta map_alloc_snd)

lemma enhancedLinks_Some:
  "currentLinks st = Some ls \<Longrightarrow>
   enhancedLinks ext p st h =
     (fst (map_alloc (styled_link ext p) h ls), Some [length h..<length h + length ls])"
  by (simp add: enhancedLinks_def case_prod_beta map_alloc_snd)

lemma enhancedNodes_take: "take (length h) (fst (enhancedNodes ext p st h)) = h"
  by (cases "currentNodes st") (simp_all add: enhancedNodes_def case_prod_beta map_alloc_take)

lemma enhancedLinks_take: "take (length h) (fst (enhancedLinks ext p st h)) = h"
  by (cases "currentLinks st") (simp_all add: enhancedLinks_def case_prod_beta map_alloc_take)

lemma take_extends:
  assumes "take (length h) h' = h" and "m \<le> length h"
  shows "take m h' = take m h"
proof -
  have "take m (take (length h) h') = take m h'" using assms(2) by (simp add: min_def)
  with assms(1) show ?thesis by simp
qed

lemma deref_extends:
  assumes "take (length h) h' = h" and "a < length h"
  shows "deref h' a = deref h a"
proof -
  have "length h \<le> length h'" using assms(1) by (metis length_take min.cobounded1)
  moreover have "h' ! a = h ! a" using assms by (metis nth_take)
  ultimately show ?thesis using assms(2) by (simp add: deref_def)
qed

text \<open>The styled node number \<open>i\<close> in the store the render returns.\<close>

lemma useNetwork_node:
  assumes "useNetwork ext p st h = ((ens, els), h')" and "currentNodes st = Some ns"
  shows "ens = Some [length h..<length h + length ns]"
    and "take (length h) h' = h"
    and "i < length ns \<Longrightarrow>
         deref h' (length h + i) = styled_node ext p (take (length h + i) h') (ns ! i)"
proof -
  let ?h1 = "fst (map_alloc (styled_node ext p) h ns)"
  have en: "enhancedNodes ext p st h = (?h1, Some [length h..<length h + length ns])"
    using assms(2) by (rule enhancedNodes_Some)
  from assms(1) have h': "h' = fst (enhancedLinks ext p st ?h1)"
    and ens: "ens = Some [length h..<length h + length ns]"
    by (simp_all add: useNetwork_unfold en)
  show "ens = Some [length h..<length h + length ns]" by (rule ens)
  have t1: "take (length ?h1) h' = ?h1" unfolding h' by (rule enhancedLinks_take)
  have len1: "length ?h1 = length h + length ns" by (rule map_alloc_length)
  have "take (length h) h' = take (length h) ?h1"
    by (rule take_extends [OF t1]) (simp add: len1)
  then show "take (length h) h' = h" by (simp add: map_alloc_take)
  assume i: "i < length ns"
  have "deref h' (length h + i) = deref ?h1 (length h + i)"
    by (rule deref_extends [OF t1]) (simp add: len1 i)
  also have "\<dots> = ?h1 ! (length h + i)" using i by (simp add: deref_def len1)
  also have "\<dots> = styled_node ext p (take (length h + i) ?h1) (ns ! i)"
    using i by (rule map_alloc_new)
  also have "take (length h + i) ?h1 = take (length h + i) h'"
    using take_extends [OF t1, of "length h + i"] i by (simp add: len1)
  finally show "deref h' (length h + i) = styled_node ext p (take (length h + i) h') (ns ! i)" .
qed

lemma useNetwork_link:
  assumes "useNetwork ext p st h = ((ens, els), h')" and "currentLinks st = Some ls"
  shows "els = Some [length h' - length ls..<length h']"
    and "length h + length ls \<le> length h'"
    and "i < length ls \<Longrightarrow>
         deref h' (length h' - length ls + i) =
           styled_link ext p (take (length h' - length ls + i) h') (ls ! i)"
proof -
  let ?h1 = "fst (enhancedNodes ext p st h)"
  let ?h2 = "fst (map_alloc (styled_link ext p) ?h1 ls)"
  have el: "enhancedLinks ext p st ?h1 = (?h2, Some [length ?h1..<length ?h1 + length ls])"
    using assms(2) by (rule enhancedLinks_Some)
  from assms(1) have h': "h' = ?h2" and els: "els = Some [length ?h1..<length ?h1 + length ls]"
    by (simp_all add: useNetwork_unfold el)
  have len2: "length h' = length ?h1 + length ls" unfolding h' by (rule map_alloc_length)
  have "length h \<le> length ?h1" by (metis enhancedNodes_take length_take min.cobounded1)
  then show "length h + length ls \<le> length h'" by (simp add: len2)
  show "els = Some [length h' - length ls..<length h']" by (simp add: els len2)
  assume i: "i < length ls"
  have "deref h' (length ?h1 + i) = h' ! (length ?h1 + i)" using i by (simp add: deref_def len2)
  also have "\<dots> = styled_link ext p (take (length ?h1 + i) h') (ls ! i)"
    unfolding h' using i by (rule map_alloc_new)
  finally show "deref h' (length h' - length ls + i) =
           styled_link ext p (take (length h' - length ls + i) h') (ls ! i)"
    by (simp add: len2)
qed

lemma get_prop_styled_node:
  "get_prop (styled_node ext p H n) ''color'' = getNodeColor ext p H (JRef n)"
  "get_prop (styled_node ext p H n) ''borderWidth'' = resolved_nodeBorderWidth ext p"
  "get_prop (styled_node ext p H n) ''borderColor'' = getNodeBorderColor ext p H (JRef n)"
  "k \<noteq> ''color'' \<Longrightarrow> k \<noteq> ''borderWidth'' \<Longrightarrow> k \<noteq> ''borderColor'' \<Longrightarrow>
   styled_node ext p H n k = deref H n k"
  by (simp_all add: styled_node_def get_prop_def)

lemma get_prop_styled_link:
  "get_prop (styled_link ext p H l) ''thickness'' = getLinkThickness ext p H (JRef l)"
  "get_prop (styled_link ext p H l) ''color'' = getLinkColor ext p H (JRef l)"
  "k \<noteq> ''thickness'' \<Longrightarrow> k \<noteq> ''color'' \<Longrightarrow> styled_link ext p H l k = deref H l k"
  by (simp_all add: styled_link_def get_prop_def)


subsection \<open>The effect\<close>

lemma effect_copies_eq:
  "effect_copies ext p h =
     (fst (map_alloc (link_copy ext) (fst (map_alloc node_copy h (nodes p))) (links p)),
      [length h..<length h + length (nodes p)],
      [length h + length (nodes p)..<length h + length (nodes p) + length (links p)])"
  by (simp add: effect_copies_def case_prod_beta map_alloc_snd map_alloc_length)

lemma effect_copies_length:
  "length (fst (effect_copies ext p h)) = length h + length (nodes p) + length (links p)"
  by (simp add: effect_copies_eq map_alloc_length)

lemma effect_copies_take: "take (length h) (fst (effect_copies ext p h)) = h"
proof -
  let ?h1 = "fst (map_alloc node_copy h (nodes p))"
  have "take (length ?h1) (fst (effect_copies ext p h)) = ?h1"
    by (simp add: effect_copies_eq map_alloc_take)
  moreover have "length h \<le> length ?h1" by (simp add: map_alloc_length)
  ultimately have "take (length h) (fst (effect_copies ext p h)) = take (length h) ?h1"
    by (rule take_extends)
  then show ?thesis by (simp add: map_alloc_take)
qed

lemma link_copy_cong: "deref H l = deref h l \<Longrightarrow> link_copy ext H l = link_copy ext h l"
  by (simp add: link_copy_def)

lemma effect_copies_link:
  assumes "i < length (links p)" and "links p ! i < length h"
  shows "deref (fst (effect_copies ext p h)) (length h + length (nodes p) + i) =
         link_copy ext h (links p ! i)"
proof -
  let ?h1 = "fst (map_alloc node_copy h (nodes p))"
  let ?h2 = "fst (effect_copies ext p h)"
  have h2: "?h2 = fst (map_alloc (link_copy ext) ?h1 (links p))" by (simp add: effect_copies_eq)
  have len1: "length ?h1 = length h + length (nodes p)" by (rule map_alloc_length)
  have "deref ?h2 (length ?h1 + i) = ?h2 ! (length ?h1 + i)"
    using assms(1) by (simp add: deref_def effect_copies_length len1)
  also have "\<dots> = link_copy ext (take (length ?h1 + i) ?h2) (links p ! i)"
    unfolding h2 using assms(1) by (rule map_alloc_new)
  also have "\<dots> = link_copy ext h (links p ! i)"
  proof (rule link_copy_cong)
    have "take (length h) (take (length ?h1 + i) ?h2) = h"
      using effect_copies_take [of h ext p] by (simp add: min_def len1)
    from deref_extends [OF this assms(2)]
    show "deref (take (length ?h1 + i) ?h2) (links p ! i) = deref h (links p ! i)" .
  qed
  finally show ?thesis by (simp add: len1)
qed

lemma useNetwork_effect_Inr:
  assumes "useNetwork_effect ext p st h = Inr (st', h')"
  shows "st' = \<lparr> currentNodes = Some [length h..<length h + length (nodes p)],
                 currentLinks = Some [length h + length (nodes p)..<
                                      length h + length (nodes p) + length (links p)] \<rparr>"
    and "\<exists>ws. d3_simulation ext (fst (effect_copies ext p h))
                [length h..<length h + length (nodes p)]
                ((effect_forces ext p)\<lparr> linkForce := (linkForce (effect_forces ext p))
                   \<lparr> fl_links := [length h + length (nodes p)..<
                                  length h + length (nodes p) + length (links p)] \<rparr> \<rparr>)
                (default_num (default_iterations (commonDefaultProps ext)) (iterations p)) = Inr ws \<and>
              set_previous_all (currentNodes st) (apply_writes ws (fst (effect_copies ext p h)))
                [length h + length (nodes p)..<length h + length (nodes p) + length (links p)]
              = Inr h'"
  using assms
  by (auto simp: useNetwork_effect_def Let_def effect_copies_eq split: sum.splits)

lemma apply_writes_other_key:
  "\<forall>w\<in>set ws. fst (snd w) \<noteq> k \<Longrightarrow>
   get_prop (deref (apply_writes ws h) a) k = get_prop (deref h a) k"
  unfolding apply_writes_def
  by (induction ws arbitrary: h) (auto simp: get_prop_assign_other_key)

lemma computeForces_charge:
  "chargeForce (computeForces ld r dmin dmax c) =
     \<lparr> fm_strength = - r, fm_distanceMin = dmin, fm_distanceMax = dmax \<rparr>"
  by (simp add: computeForces_def)

lemma useNetwork_effect_simulation_throws:
  "d3_simulation ext (fst (effect_copies ext p h)) (fst (snd (effect_copies ext p h)))
     ((effect_forces ext p)\<lparr> linkForce := (linkForce (effect_forces ext p))
        \<lparr> fl_links := snd (snd (effect_copies ext p h)) \<rparr> \<rparr>)
     (default_num (default_iterations (commonDefaultProps ext)) (iterations p)) = Inl e \<Longrightarrow>
   useNetwork_effect ext p st h = Inl e"
  by (simp add: useNetwork_effect_def Let_def case_prod_beta)

text \<open>The state a run leaves refers to objects of the store it leaves.\<close>

lemma useNetwork_effect_in_store:
  assumes "useNetwork_effect ext p st h = Inr (st', h')"
  shows "\<forall>n\<in>set (case currentNodes st' of None \<Rightarrow> [] | Some ns \<Rightarrow> ns). n < length h'"
    and "\<forall>l\<in>set (case currentLinks st' of None \<Rightarrow> [] | Some ls \<Rightarrow> ls). l < length h'"
proof -
  from useNetwork_effect_Inr(2) [OF assms] obtain ws where
    "set_previous_all (currentNodes st) (apply_writes ws (fst (effect_copies ext p h)))
       [length h + length (nodes p)..<length h + length (nodes p) + length (links p)] = Inr h'"
    by blast
  from set_previous_all_frame(1) [OF this]
  have len: "length h' = length h + length (nodes p) + length (links p)"
    by (simp add: length_apply_writes effect_copies_length)
  show "\<forall>n\<in>set (case currentNodes st' of None \<Rightarrow> [] | Some ns \<Rightarrow> ns). n < length h'"
    using useNetwork_effect_Inr(1) [OF assms] len by simp
  show "\<forall>l\<in>set (case currentLinks st' of None \<Rightarrow> [] | Some ls \<Rightarrow> ls). l < length h'"
    using useNetwork_effect_Inr(1) [OF assms] len by simp
qed

lemma getLinkDistance_tests:
  "getLinkDistance ld =
     (if is_function ld then (case ld of JFun f \<Rightarrow> DistFunction f | _ \<Rightarrow> DistUndefined)
      else if isNumber ld then (case ld of JNum n \<Rightarrow> DistNumber n | _ \<Rightarrow> DistUndefined)
      else if isString ld then (case ld of JStr s \<Rightarrow> DistGet s | _ \<Rightarrow> DistUndefined)
      else DistUndefined)"
  by (cases ld) (simp_all add: getLinkDistance_def is_function_def isNumber_def isString_def)

subsection \<open>Unfolding for the instance\<close>

lemmas example_defs =
  example_externals_def example_props_def example_prior_def example_heap_def
  example_defaults_def stub_simulation_def stub_resolve_def example_run_heap_def
  example_run_state_def example_heap_own_id_def

lemmas render_defs =
  useNetwork_def enhancedNodes_def enhancedLinks_def styled_node_def styled_link_def
  getNodeColor_def resolved_nodeBorderWidth_def getNodeBorderColor_def getLinkThickness_def
  getLinkColor_def useNodeColor_def useLinkThickness_def default_to_def alloc_def deref_def
  get_prop_def

lemmas effect_defs =
  useNetwork_effect_def effect_forces_def effect_copies_def computeForces_def getLinkDistance_def
  default_to_def default_num_def node_copy_def link_copy_def derived_id_def template_part_def
  alloc_def deref_def get_prop_def apply_writes_def assign_def previous_of_def set_previous_def
  get_member_def initial_state_def

lemma example_first_run:
  "useNetwork_effect example_externals example_props initial_state example_heap =
     Inr (example_run_state, example_run_heap)"
  by (simp add: example_defs effect_defs eval_nat_numeral)

lemma example_second_run:
  "map_sum id fst (useNetwork_effect example_externals example_props example_run_state
      example_run_heap) = Inr \<lparr> currentNodes = Some [6, 7], currentLinks = Some [8] \<rparr>"
  by (simp add: example_defs effect_defs eval_nat_numeral)

lemma stub_simulation_writes_no_id:
  "stub_simulation H ns fs n = Inr ws \<Longrightarrow> \<forall>w\<in>set ws. fst (snd w) \<noteq> ''id''"
  by (auto simp: stub_simulation_def)

lemma example_own_id_run:
  "map_sum id fst (useNetwork_effect example_externals example_props initial_state
      example_heap_own_id) = Inr \<lparr> currentNodes = Some [3, 4], currentLinks = Some [5] \<rparr>"
  by (simp add: example_defs effect_defs eval_nat_numeral)

lemma zero_node_run_renders_empty:
  assumes "nodes p = []" and "links p = []"
    and "useNetwork_effect ext p st h = Inr (st', h')"
  shows "fst (useNetwork ext p' st' h') = (Some [], Some [])"
  using useNetwork_effect_Inr(1) [OF assms(3)] assms(1,2)
  by (simp add: useNetwork_def enhancedNodes_def enhancedLinks_def)

section \<open>Properties\<close>

text \<open>
  C4. Before the first run completes the hook holds its initial state, and every
  render of that state returns \<open>null\<close> for the computed nodes and for the computed
  links; \<open>null\<close> is not the empty array, so "no data yet" and "zero nodes" differ.
\<close>

theorem initial_render_is_null:
  "useNetwork ext p initial_state h = ((None, None), h) \<and>
   fst (useNetwork ext p initial_state h) \<noteq> (Some [], Some [])"
  by (simp add: useNetwork_def enhancedNodes_def enhancedLinks_def initial_state_def)

text \<open>
  C6. With a constant \<open>nodeColor\<close> every computed node carries exactly that value as
  its \<open>color\<close>, whatever the node holds; with a function it carries what the function
  returns on that node, called on the store as it is at that moment (the store
  before the render and the styled nodes built so far). Computed node number \<open>i\<close>
  is the new object at address \<open>length h + i\<close>.
\<close>

theorem nodeColor_constant_or_function:
  assumes "useNetwork ext p st h = ((ens, els), h')"
    and "currentNodes st = Some ns"
    and "nodeColor p \<noteq> JUndefined"
    and "i < length ns"
  shows "ens = Some [length h..<length h + length ns] \<and>
         (\<not> is_function (nodeColor p) \<longrightarrow>
            get_prop (deref h' (length h + i)) ''color'' = nodeColor p) \<and>
         (\<forall>f. nodeColor p = JFun f \<longrightarrow>
            get_prop (deref h' (length h + i)) ''color'' =
              callFn ext f (take (length h + i) h') (JRef (ns ! i)))"
proof -
  have gc: "getNodeColor ext p = useNodeColor ext (nodeColor p)"
    using assms(3) by (simp add: getNodeColor_def default_to_def)
  have col: "get_prop (deref h' (length h + i)) ''color'' =
             useNodeColor ext (nodeColor p) (take (length h + i) h') (JRef (ns ! i))"
    using useNetwork_node(3) [OF assms(1,2,4)] by (simp add: get_prop_styled_node gc)
  have "\<not> is_function (nodeColor p) \<Longrightarrow> useNodeColor ext (nodeColor p) = (\<lambda>h node. nodeColor p)"
    by (cases "nodeColor p") (simp_all add: useNodeColor_def is_function_def)
  moreover have "useNodeColor ext (JFun f) = callFn ext f" for f
    by (simp add: useNodeColor_def)
  ultimately show ?thesis
    using useNetwork_node(1) [OF assms(1,2)] col by auto
qed

theorem nodeColor_constant_or_function_witness:
  "get_prop (deref (snd (useNetwork example_externals (example_props\<lparr>nodeColor := JFun 0\<rparr>)
       example_prior example_heap)) 4) ''color'' = JStr ''blue'' \<and>
   get_prop (deref (snd (useNetwork example_externals (example_props\<lparr>nodeColor := JStr ''green''\<rparr>)
       example_prior example_heap)) 4) ''color'' = JStr ''green''"
proof -
  let ?p = "example_props\<lparr>nodeColor := JFun 0\<rparr>"
  let ?q = "example_props\<lparr>nodeColor := JStr ''green''\<rparr>"
  let ?X = "useNetwork example_externals ?p example_prior example_heap"
  let ?Y = "useNetwork example_externals ?q example_prior example_heap"
  show ?thesis
    using nodeColor_constant_or_function [of example_externals ?p example_prior example_heap
        "fst (fst ?X)" "snd (fst ?X)" "snd ?X" "[0, 1]" 1]
      nodeColor_constant_or_function [of example_externals ?q example_prior example_heap
        "fst (fst ?Y)" "snd (fst ?Y)" "snd ?Y" "[0, 1]" 1]
    by (simp add: example_defs render_defs)
qed

text \<open>
  C7 (as the code has it). \<open>nodeBorderWidth\<close> is not normalised and never called: every
  computed node's \<open>borderWidth\<close> is the value passed (or the default when none is
  passed), also when that value is a function.
\<close>

theorem nodeBorderWidth_used_as_passed:
  assumes "useNetwork ext p st h = ((ens, els), h')"
    and "currentNodes st = Some ns"
    and "i < length ns"
  shows "ens = Some [length h..<length h + length ns] \<and>
         get_prop (deref h' (length h + i)) ''borderWidth'' =
           (if nodeBorderWidth p = JUndefined
            then default_nodeBorderWidth (commonDefaultProps ext)
            else nodeBorderWidth p)"
  using useNetwork_node(1) [OF assms(1,2)] useNetwork_node(3) [OF assms]
  by (simp add: get_prop_styled_node resolved_nodeBorderWidth_def default_to_def)

theorem nodeBorderWidth_used_as_passed_witness:
  "get_prop (deref (snd (useNetwork example_externals (example_props\<lparr>nodeBorderWidth := JNum 2\<rparr>)
       example_prior example_heap)) 3) ''borderWidth'' = JNum 2"
proof -
  let ?p = "example_props\<lparr>nodeBorderWidth := JNum 2\<rparr>"
  let ?X = "useNetwork example_externals ?p example_prior example_heap"
  show ?thesis
    using nodeBorderWidth_used_as_passed [of example_externals ?p example_prior example_heap
        "fst (fst ?X)" "snd (fst ?X)" "snd ?X" "[0, 1]" 0]
    by (simp add: example_defs render_defs)
qed

text \<open>
  With the function that reads \<open>fill\<close> passed as \<open>nodeBorderWidth\<close>, the styled copy of
  node \<open>a\<close> holds the function itself, not its result \<open>red\<close> on that node.
\<close>

theorem nodeBorderWidth_function_not_applied:
  "fst (useNetwork example_externals (example_props\<lparr>nodeBorderWidth := JFun 0\<rparr>)
       example_prior example_heap) = (Some [3, 4], None) \<and>
   get_prop (deref (snd (useNetwork example_externals (example_props\<lparr>nodeBorderWidth := JFun 0\<rparr>)
       example_prior example_heap)) 3) ''borderWidth'' = JFun 0 \<and>
   callFn example_externals 0 example_heap (JRef 0) = JStr ''red'' \<and>
   get_prop (deref (snd (useNetwork example_externals (example_props\<lparr>nodeBorderWidth := JFun 0\<rparr>)
       example_prior example_heap)) 3) ''borderWidth'' \<noteq> callFn example_externals 0 example_heap (JRef 0)"
  by (simp add: example_defs render_defs)

text \<open>
  C8. A render changes no object that was in the store before it: the records the
  run left in the state are intact. Every styled node and every styled link is a
  new object, equal to its original on every field but the style fields, so the
  positions \<open>x\<close> and \<open>y\<close> are those the run produced.
\<close>

theorem styling_never_mutates:
  assumes "useNetwork ext p st h = ((ens, els), h')"
    and "\<forall>n\<in>set (case currentNodes st of None \<Rightarrow> [] | Some ns \<Rightarrow> ns). n < length h"
    and "\<forall>l\<in>set (case currentLinks st of None \<Rightarrow> [] | Some ls \<Rightarrow> ls). l < length h"
  shows "take (length h) h' = h \<and>
         (\<forall>ns. currentNodes st = Some ns \<longrightarrow>
            (\<exists>es. ens = Some es \<and> length es = length ns \<and>
               (\<forall>i<length ns. length h \<le> es ! i \<and>
                  get_prop (deref h' (es ! i)) ''x'' = get_prop (deref h (ns ! i)) ''x'' \<and>
                  get_prop (deref h' (es ! i)) ''y'' = get_prop (deref h (ns ! i)) ''y'' \<and>
                  (\<forall>k. k \<noteq> ''color'' \<and> k \<noteq> ''borderWidth'' \<and> k \<noteq> ''borderColor'' \<longrightarrow>
                     deref h' (es ! i) k = deref h (ns ! i) k)))) \<and>
         (\<forall>ls. currentLinks st = Some ls \<longrightarrow>
            (\<exists>es. els = Some es \<and> length es = length ls \<and>
               (\<forall>i<length ls. length h \<le> es ! i \<and>
                  (\<forall>k. k \<noteq> ''thickness'' \<and> k \<noteq> ''color'' \<longrightarrow>
                     deref h' (es ! i) k = deref h (ls ! i) k))))"
proof (intro conjI allI impI)
  have "h' = fst (enhancedLinks ext p st (fst (enhancedNodes ext p st h)))"
    using assms(1) by (simp add: useNetwork_unfold)
  then have t1: "take (length (fst (enhancedNodes ext p st h))) h' = fst (enhancedNodes ext p st h)"
    by (simp add: enhancedLinks_take)
  have "length h \<le> length (fst (enhancedNodes ext p st h))"
    by (metis enhancedNodes_take length_take min.cobounded1)
  from take_extends [OF t1 this] show t: "take (length h) h' = h"
    by (simp add: enhancedNodes_take)
  have old: "deref (take m h') a = deref h a" if "a < length h" "length h \<le> m" for a m
  proof -
    have "take (length h) (take m h') = h" using t that(2) by (simp add: min_def)
    from deref_extends [OF this that(1)] show ?thesis .
  qed
  {
    fix ns assume ns: "currentNodes st = Some ns"
    let ?es = "[length h..<length h + length ns]"
    have "\<forall>i<length ns. length h \<le> ?es ! i \<and>
            get_prop (deref h' (?es ! i)) ''x'' = get_prop (deref h (ns ! i)) ''x'' \<and>
            get_prop (deref h' (?es ! i)) ''y'' = get_prop (deref h (ns ! i)) ''y'' \<and>
            (\<forall>k. k \<noteq> ''color'' \<and> k \<noteq> ''borderWidth'' \<and> k \<noteq> ''borderColor'' \<longrightarrow>
               deref h' (?es ! i) k = deref h (ns ! i) k)"
    proof (intro allI impI)
      fix i assume i: "i < length ns"
      then have lt: "ns ! i < length h" using assms(2) ns by simp
      have d: "deref h' (length h + i) = styled_node ext p (take (length h + i) h') (ns ! i)"
        by (rule useNetwork_node(3) [OF assms(1) ns i])
      have o: "deref (take (length h + i) h') (ns ! i) = deref h (ns ! i)"
        by (rule old [OF lt]) simp
      have k: "deref h' (length h + i) k = deref h (ns ! i) k"
        if "k \<noteq> ''color''" "k \<noteq> ''borderWidth''" "k \<noteq> ''borderColor''" for k
        using that by (simp add: d get_prop_styled_node(4) o)
      have "get_prop (deref h' (length h + i)) ''x'' = get_prop (deref h (ns ! i)) ''x''"
        "get_prop (deref h' (length h + i)) ''y'' = get_prop (deref h (ns ! i)) ''y''"
        by (simp_all add: get_prop_def k)
      with k i show "length h \<le> ?es ! i \<and>
            get_prop (deref h' (?es ! i)) ''x'' = get_prop (deref h (ns ! i)) ''x'' \<and>
            get_prop (deref h' (?es ! i)) ''y'' = get_prop (deref h (ns ! i)) ''y'' \<and>
            (\<forall>k. k \<noteq> ''color'' \<and> k \<noteq> ''borderWidth'' \<and> k \<noteq> ''borderColor'' \<longrightarrow>
               deref h' (?es ! i) k = deref h (ns ! i) k)"
        by simp
    qed
    with useNetwork_node(1) [OF assms(1) ns]
    show "\<exists>es. ens = Some es \<and> length es = length ns \<and>
               (\<forall>i<length ns. length h \<le> es ! i \<and>
                  get_prop (deref h' (es ! i)) ''x'' = get_prop (deref h (ns ! i)) ''x'' \<and>
                  get_prop (deref h' (es ! i)) ''y'' = get_prop (deref h (ns ! i)) ''y'' \<and>
                  (\<forall>k. k \<noteq> ''color'' \<and> k \<noteq> ''borderWidth'' \<and> k \<noteq> ''borderColor'' \<longrightarrow>
                     deref h' (es ! i) k = deref h (ns ! i) k))"
      by (intro exI [of _ ?es]) simp
  }
  {
    fix ls assume ls: "currentLinks st = Some ls"
    let ?b = "length h' - length ls"
    let ?es = "[?b..<length h']"
    have le: "length h + length ls \<le> length h'" by (rule useNetwork_link(2) [OF assms(1) ls])
    have "\<forall>i<length ls. length h \<le> ?es ! i \<and>
            (\<forall>k. k \<noteq> ''thickness'' \<and> k \<noteq> ''color'' \<longrightarrow>
               deref h' (?es ! i) k = deref h (ls ! i) k)"
    proof (intro allI impI)
      fix i assume i: "i < length ls"
      then have lt: "ls ! i < length h" using assms(3) ls by simp
      have d: "deref h' (?b + i) = styled_link ext p (take (?b + i) h') (ls ! i)"
        by (rule useNetwork_link(3) [OF assms(1) ls i])
      have o: "deref (take (?b + i) h') (ls ! i) = deref h (ls ! i)"
        by (rule old [OF lt]) (use le in simp)
      have k: "deref h' (?b + i) k = deref h (ls ! i) k"
        if "k \<noteq> ''thickness''" "k \<noteq> ''color''" for k
        using that by (simp add: d get_prop_styled_link(3) o)
      have "?es ! i = ?b + i" using i le by simp
      with k le show "length h \<le> ?es ! i \<and>
            (\<forall>k. k \<noteq> ''thickness'' \<and> k \<noteq> ''color'' \<longrightarrow>
               deref h' (?es ! i) k = deref h (ls ! i) k)"
        by simp
    qed
    moreover have "length ?es = length ls" using le by simp
    ultimately show "\<exists>es. els = Some es \<and> length es = length ls \<and>
               (\<forall>i<length ls. length h \<le> es ! i \<and>
                  (\<forall>k. k \<noteq> ''thickness'' \<and> k \<noteq> ''color'' \<longrightarrow>
                     deref h' (es ! i) k = deref h (ls ! i) k))"
      using useNetwork_link(1) [OF assms(1) ls] by (intro exI [of _ ?es]) simp
  }
qed

theorem styling_never_mutates_witness:
  "take 6 (snd (useNetwork example_externals example_props example_run_state example_run_heap)) =
     example_run_heap \<and>
   fst (useNetwork example_externals example_props example_run_state example_run_heap) =
     (Some [6, 7], Some [8]) \<and>
   get_prop (deref (snd (useNetwork example_externals example_props example_run_state
     example_run_heap)) 6) ''x'' = JNum 0 \<and>
   get_prop (deref (snd (useNetwork example_externals example_props example_run_state
     example_run_heap)) 8) ''source'' = JRef 3"
proof -
  let ?X = "useNetwork example_externals example_props example_run_state example_run_heap"
  show ?thesis
    using styling_never_mutates [of example_externals example_props example_run_state
        example_run_heap "fst (fst ?X)" "snd (fst ?X)" "snd ?X"]
    by (simp add: example_defs render_defs eval_nat_numeral)
qed

text \<open>
  C5. After a run that closed over a state without nodes (the first run), every link
  the run stores has \<open>previousSource\<close> and \<open>previousTarget\<close> undefined. After a run
  that closed over the nodes \<open>ns\<close> of the prior run, they are the first node of \<open>ns\<close>
  whose id is the id of the node the link end resolved to, and undefined when \<open>ns\<close>
  has no such node.
\<close>

theorem previous_references:
  assumes "useNetwork_effect ext p st h = Inr (st', h')"
  shows "\<exists>ls. currentLinks st' = Some ls \<and> length ls = length (links p) \<and>
           (\<forall>l\<in>set ls.
              (currentNodes st = None \<longrightarrow>
                 get_prop (deref h' l) ''previousSource'' = JUndefined \<and>
                 get_prop (deref h' l) ''previousTarget'' = JUndefined) \<and>
              (\<forall>ns. currentNodes st = Some ns \<longrightarrow>
                 get_prop (deref h' l) ''previousSource'' = previous_node h' ns l ''source'' \<and>
                 get_prop (deref h' l) ''previousTarget'' = previous_node h' ns l ''target''))"
proof -
  let ?h2 = "fst (effect_copies ext p h)"
  let ?ls = "[length h + length (nodes p)..<length h + length (nodes p) + length (links p)]"
  from useNetwork_effect_Inr(2) [OF assms] obtain ws where
    run: "set_previous_all (currentNodes st) (apply_writes ws ?h2) ?ls = Inr h'"
    by blast
  have st': "currentLinks st' = Some ?ls"
    using useNetwork_effect_Inr(1) [OF assms] by simp
  have inside: "\<forall>l\<in>set ?ls. l < length (apply_writes ws ?h2)"
    by (simp add: length_apply_writes effect_copies_length)
  have "\<forall>l\<in>set ?ls.
          get_prop (deref h' l) ''previousSource'' =
            expected_previous h' (currentNodes st) l ''source'' \<and>
          get_prop (deref h' l) ''previousTarget'' =
            expected_previous h' (currentNodes st) l ''target''"
    using set_previous_all_result [OF run _ inside] by simp
  then have "\<forall>l\<in>set ?ls.
              (currentNodes st = None \<longrightarrow>
                 get_prop (deref h' l) ''previousSource'' = JUndefined \<and>
                 get_prop (deref h' l) ''previousTarget'' = JUndefined) \<and>
              (\<forall>ns. currentNodes st = Some ns \<longrightarrow>
                 get_prop (deref h' l) ''previousSource'' = previous_node h' ns l ''source'' \<and>
                 get_prop (deref h' l) ''previousTarget'' = previous_node h' ns l ''target'')"
    by (simp add: expected_previous_def)
  with st' show ?thesis by (intro exI [of _ ?ls]) simp
qed

theorem previous_references_witness:
  "get_prop (deref (snd (projr (useNetwork_effect example_externals example_props
      example_run_state example_run_heap))) 8) ''previousSource'' = JRef 3 \<and>
   get_prop (deref (snd (projr (useNetwork_effect example_externals example_props
      example_run_state example_run_heap))) 8) ''previousTarget'' = JRef 4 \<and>
   get_prop (deref (snd (projr (useNetwork_effect example_externals example_props
      initial_state example_heap))) 5) ''previousSource'' = JUndefined"
proof -
  let ?R = "useNetwork_effect example_externals example_props example_run_state example_run_heap"
  let ?h = "snd (projr ?R)"
  let ?F = "useNetwork_effect example_externals example_props initial_state example_heap"
  have st: "fst (projr ?R) = \<lparr> currentNodes = Some [6, 7], currentLinks = Some [8] \<rparr>"
    using example_second_run by (cases ?R) auto
  have r: "?R = Inr (fst (projr ?R), ?h)"
    using example_second_run by (cases ?R) (auto simp: prod_eq_iff)
  have f: "?F = Inr (example_run_state, snd (projr ?F))"
    by (simp add: example_first_run)
  have prior: "currentNodes example_run_state = Some [3, 4]"
    by (simp add: example_run_state_def)
  have found: "previous_node ?h [3, 4] 8 ''source'' = JRef 3 \<and>
        previous_node ?h [3, 4] 8 ''target'' = JRef 4"
    by (simp add: previous_node_def endpoint_id_def example_defs effect_defs eval_nat_numeral)
  from previous_references [OF r] st prior
  have "get_prop (deref ?h 8) ''previousSource'' = previous_node ?h [3, 4] 8 ''source'' \<and>
        get_prop (deref ?h 8) ''previousTarget'' = previous_node ?h [3, 4] 8 ''target''"
    by simp
  moreover from previous_references [OF f]
  have "get_prop (deref (snd (projr ?F)) 5) ''previousSource'' = JUndefined"
    by (simp add: example_run_state_def initial_state_def)
  ultimately show ?thesis using found by simp
qed

text \<open>
  C2 (as the code has it). \<open>computeForces\<close> has no failing branch. For a
  \<open>linkDistance\<close> that is neither a function, a number nor a string it leaves the
  accessor undefined and builds the three forces with it.
\<close>

theorem unsupported_linkDistance_stays_undefined:
  assumes "\<not> is_function ld" and "\<not> isNumber ld" and "\<not> isString ld"
  shows "computeForces ld r dmin dmax c =
           \<lparr> linkForce = \<lparr> fl_distance = DistUndefined, fl_links = [] \<rparr>,
             chargeForce = \<lparr> fm_strength = - r, fm_distanceMin = dmin, fm_distanceMax = dmax \<rparr>,
             centerForce = \<lparr> fc_x = fst c, fc_y = snd c \<rparr> \<rparr>"
  using assms
  by (cases ld) (simp_all add: computeForces_def getLinkDistance_def is_function_def
      isNumber_def isString_def)

theorem unsupported_linkDistance_stays_undefined_witness:
  "fl_distance (linkForce (computeForces (JBool True) 10 1 999 (0, 0))) = DistUndefined"
  using unsupported_linkDistance_stays_undefined [of "JBool True" 10 1 999 "(0, 0)"]
  by (simp add: is_function_def isNumber_def isString_def)

text \<open>
  With \<open>linkDistance = null\<close> nothing is rejected: the accessor is undefined, the
  simulation is run with it, and the run completes and sets the state.
\<close>

theorem null_linkDistance_not_rejected:
  "\<not> is_function JNull \<and> \<not> isNumber JNull \<and> \<not> isString JNull \<and>
   fl_distance (linkForce (effect_forces example_externals
     (example_props\<lparr>linkDistance := JNull\<rparr>))) = DistUndefined \<and>
   map_sum id fst (useNetwork_effect example_externals (example_props\<lparr>linkDistance := JNull\<rparr>)
     initial_state example_heap) = Inr \<lparr> currentNodes = Some [3, 4], currentLinks = Some [5] \<rparr>"
  by (simp add: example_defs effect_defs is_function_def isNumber_def isString_def eval_nat_numeral)

text \<open>
  C10. The copy of an input link carries the caller's \<open>id\<close> when the link has one, and
  otherwise the source and target joined by a dot; neither the search for the
  previous nodes nor a simulation that writes no \<open>id\<close> changes it, so this is the id
  of the link the run stores.
\<close>

theorem link_id_derived_unless_supplied:
  assumes "useNetwork_effect ext p st h = Inr (st', h')"
    and "i < length (links p)"
    and "links p ! i < length h"
    and "\<forall>H ns fs n ws. d3_simulation ext H ns fs n = Inr ws \<longrightarrow> (\<forall>w\<in>set ws. fst (snd w) \<noteq> ''id'')"
  shows "\<exists>ls. currentLinks st' = Some ls \<and> length ls = length (links p) \<and>
           (deref h (links p ! i) ''id'' = None \<longrightarrow>
              get_prop (deref h' (ls ! i)) ''id'' =
                JStr (template_part ext (get_prop (deref h (links p ! i)) ''source'') @ ''.'' @
                      template_part ext (get_prop (deref h (links p ! i)) ''target''))) \<and>
           (\<forall>v. deref h (links p ! i) ''id'' = Some v \<longrightarrow>
              get_prop (deref h' (ls ! i)) ''id'' = v) \<and>
           (\<forall>s t. get_prop (deref h (links p ! i)) ''source'' = JStr s \<and>
                  get_prop (deref h (links p ! i)) ''target'' = JStr t \<and>
                  deref h (links p ! i) ''id'' = None \<longrightarrow>
              get_prop (deref h' (ls ! i)) ''id'' = JStr (s @ ''.'' @ t))"
proof -
  let ?h2 = "fst (effect_copies ext p h)"
  let ?b = "length h + length (nodes p)"
  let ?ls = "[?b..<?b + length (links p)]"
  let ?l = "links p ! i"
  from useNetwork_effect_Inr(2) [OF assms(1)] obtain ws where
    sim: "d3_simulation ext ?h2 [length h..<?b]
            ((effect_forces ext p)\<lparr> linkForce := (linkForce (effect_forces ext p))
               \<lparr> fl_links := ?ls \<rparr> \<rparr>)
            (default_num (default_iterations (commonDefaultProps ext)) (iterations p)) = Inr ws"
    and run: "set_previous_all (currentNodes st) (apply_writes ws ?h2) ?ls = Inr h'"
    by blast
  have st': "currentLinks st' = Some ?ls"
    using useNetwork_effect_Inr(1) [OF assms(1)] by simp
  have noid: "\<forall>w\<in>set ws. fst (snd w) \<noteq> ''id''"
    using assms(4) sim by blast
  have "get_prop (deref h' (?b + i)) ''id'' = get_prop (deref (apply_writes ws ?h2) (?b + i)) ''id''"
    using set_previous_all_frame(3) [OF run] by simp
  also have "\<dots> = get_prop (deref ?h2 (?b + i)) ''id''"
    using noid by (rule apply_writes_other_key)
  also have "\<dots> = get_prop (link_copy ext h ?l) ''id''"
    using effect_copies_link [OF assms(2,3)] by simp
  finally have id: "get_prop (deref h' (?ls ! i)) ''id'' = get_prop (link_copy ext h ?l) ''id''"
    using assms(2) by simp
  have none: "deref h ?l ''id'' = None \<Longrightarrow>
              get_prop (link_copy ext h ?l) ''id'' =
                JStr (template_part ext (get_prop (deref h ?l) ''source'') @ ''.'' @
                      template_part ext (get_prop (deref h ?l) ''target''))"
    by (simp add: link_copy_def get_prop_def map_add_def derived_id_def)
  have some: "deref h ?l ''id'' = Some v \<Longrightarrow> get_prop (link_copy ext h ?l) ''id'' = v" for v
    by (simp add: link_copy_def get_prop_def map_add_def)
  have str: "get_prop (deref h ?l) ''source'' = JStr s \<Longrightarrow>
             get_prop (deref h ?l) ''target'' = JStr t \<Longrightarrow>
             deref h ?l ''id'' = None \<Longrightarrow>
             get_prop (link_copy ext h ?l) ''id'' = JStr (s @ ''.'' @ t)" for s t
    using none by (simp add: template_part_def)
  show ?thesis
    using st' id none some str by (intro exI [of _ ?ls]) (simp del: nth_upt)
qed

theorem link_id_derived_unless_supplied_witness:
  "get_prop (deref (snd (projr (useNetwork_effect example_externals example_props initial_state
      example_heap))) 5) ''id'' = JStr ''a.b'' \<and>
   get_prop (deref (snd (projr (useNetwork_effect example_externals example_props initial_state
      example_heap_own_id))) 5) ''id'' = JStr ''first''"
proof -
  let ?F = "useNetwork_effect example_externals example_props initial_state example_heap"
  let ?G = "useNetwork_effect example_externals example_props initial_state example_heap_own_id"
  have no_id: "\<forall>H ns fs n ws. d3_simulation example_externals H ns fs n = Inr ws \<longrightarrow>
                 (\<forall>w\<in>set ws. fst (snd w) \<noteq> ''id'')"
    using stub_simulation_writes_no_id by (simp add: example_externals_def)
  have f: "?F = Inr (example_run_state, snd (projr ?F))"
    by (simp add: example_first_run)
  have g: "?G = Inr (\<lparr> currentNodes = Some [3, 4], currentLinks = Some [5] \<rparr>, snd (projr ?G))"
    using example_own_id_run by (cases ?G) (auto simp: prod_eq_iff)
  have i: "0 < length (links example_props)" by (simp add: example_props_def)
  have lf: "links example_props ! 0 < length example_heap"
    by (simp add: example_props_def example_heap_def)
  have lg: "links example_props ! 0 < length example_heap_own_id"
    by (simp add: example_props_def example_heap_own_id_def)
  have inf: "deref example_heap (links example_props ! 0) ''id'' = None"
    "get_prop (deref example_heap (links example_props ! 0)) ''source'' = JStr ''a''"
    "get_prop (deref example_heap (links example_props ! 0)) ''target'' = JStr ''b''"
    by (simp_all add: example_props_def example_heap_def deref_def get_prop_def)
  have ing: "deref example_heap_own_id (links example_props ! 0) ''id'' = Some (JStr ''first'')"
    by (simp add: example_props_def example_heap_own_id_def deref_def)
  from link_id_derived_unless_supplied [OF f i lf no_id] obtain ls where
    "currentLinks example_run_state = Some ls" and
    "get_prop (deref (snd (projr ?F)) (ls ! 0)) ''id'' = JStr (''a'' @ ''.'' @ ''b'')"
    using inf by blast
  then have a: "get_prop (deref (snd (projr ?F)) 5) ''id'' = JStr ''a.b''"
    by (auto simp: example_run_state_def)
  from link_id_derived_unless_supplied [OF g i lg no_id] obtain ks where
    "Some [5] = Some ks" and
    "get_prop (deref (snd (projr ?G)) (ks ! 0)) ''id'' = JStr ''first''"
    using ing by auto
  then have b: "get_prop (deref (snd (projr ?G)) 5) ''id'' = JStr ''first''"
    by auto
  from a b show ?thesis by simp
qed

end
